theory Spec2Isabelle
  imports Complex_Main
begin

section \<open>Array values\<close>

text \<open>
  The grids of \<^verbatim>\<open>main.py\<close> are two-dimensional numpy arrays of float64. A cell is
  either the missing sentinel \<^verbatim>\<open>np.nan\<close> or a number. Numbers are idealised as reals
  (exact arithmetic): rounding, overflow and the infinities are outside this model.
  Arithmetic with the sentinel follows IEEE 754: every operation with a NaN operand
  yields NaN.
\<close>

datatype cell = NaN | Fin real

fun isnan :: "cell \<Rightarrow> bool" where
  "isnan NaN = True"
| "isnan (Fin v) = False"

fun fadd :: "cell \<Rightarrow> cell \<Rightarrow> cell" where
  "fadd (Fin a) (Fin b) = Fin (a + b)"
| "fadd _ _ = NaN"

fun fmul :: "cell \<Rightarrow> cell \<Rightarrow> cell" where
  "fmul (Fin a) (Fin b) = Fin (a * b)"
| "fmul _ _ = NaN"

text \<open>The exceptions the functions can raise, named by the place that raises them.\<close>

datatype error =
    NegativeDimensions  \<comment> \<open>ValueError of \<^verbatim>\<open>np.empty\<close> on a negative dimension\<close>
  | ZeroDivisionError   \<comment> \<open>\<^verbatim>\<open>i_out / factor\<close> with \<^verbatim>\<open>factor == 0\<close>\<close>
  | IndexError          \<comment> \<open>array index out of bounds\<close>
  | KDTreeData          \<comment> \<open>ValueError of \<^verbatim>\<open>KDTree(known)\<close> on an empty point list\<close>
  | KDTreeK             \<comment> \<open>ValueError of \<^verbatim>\<open>tree.query\<close> on \<^verbatim>\<open>k < 1\<close>\<close>
  | NotIterable         \<comment> \<open>TypeError: iterating over a scalar index\<close>
  | KeyError            \<comment> \<open>dictionary lookup of an absent key\<close>

text \<open>
  An array with its shape \<^verbatim>\<open>(nrows, ncols)\<close>; the shape is kept beside the rows
  because numpy has arrays of shape \<^verbatim>\<open>(0, n)\<close>.
\<close>

record grid =
  nrows :: nat
  ncols :: nat
  rows :: "cell list list"

definition wf_grid :: "grid \<Rightarrow> bool" where
  "wf_grid Z \<longleftrightarrow> length (rows Z) = nrows Z \<and> (\<forall>r \<in> set (rows Z). length r = ncols Z)"

text \<open>\<^verbatim>\<open>Z[i, j]\<close> for \<^verbatim>\<open>i\<close>, \<^verbatim>\<open>j\<close> known to be in range.\<close>

definition cell_at :: "grid \<Rightarrow> nat \<Rightarrow> nat \<Rightarrow> cell" where
  "cell_at Z i j = rows Z ! i ! j"

text \<open>
  \<^verbatim>\<open>Z[i, j]\<close> for arbitrary integers: a negative index counts from the end, and an
  index outside the array raises IndexError.
\<close>

definition getitem :: "grid \<Rightarrow> int \<Rightarrow> int \<Rightarrow> error + cell" where
  "getitem Z i j =
     (let M = int (nrows Z); N = int (ncols Z);
          i' = (if i < 0 then i + M else i);
          j' = (if j < 0 then j + N else j)
      in if 0 \<le> i' \<and> i' < M \<and> 0 \<le> j' \<and> j' < N
         then Inr (cell_at Z (nat i') (nat j'))
         else Inl IndexError)"

text \<open>\<^verbatim>\<open>Z[i, j] = v\<close> for \<^verbatim>\<open>i\<close>, \<^verbatim>\<open>j\<close> in range.\<close>

definition setitem :: "grid \<Rightarrow> nat \<Rightarrow> nat \<Rightarrow> cell \<Rightarrow> grid" where
  "setitem Z i j v = Z\<lparr>rows := (rows Z)[i := (rows Z ! i)[j := v]]\<rparr>"

text \<open>\<^verbatim>\<open>int(x)\<close> on a float truncates towards zero.\<close>

definition py_int :: "real \<Rightarrow> int" where
  "py_int x = (if 0 \<le> x then \<lfloor>x\<rfloor> else \<lceil>x\<rceil>)"

text \<open>\<^verbatim>\<open>round(x)\<close> on a float rounds to the nearest integer, ties to the even one.\<close>

definition py_round :: "real \<Rightarrow> int" where
  "py_round x =
     (let f = \<lfloor>x\<rfloor>; d = x - of_int f
      in if d < 1 / 2 then f
         else if 1 / 2 < d then f + 1
         else if even f then f else f + 1)"

section \<open>Loops that stop at the first exception\<close>

fun mapM :: "('a \<Rightarrow> error + 'b) \<Rightarrow> 'a list \<Rightarrow> error + 'b list" where
  "mapM f [] = Inr []"
| "mapM f (x # xs) =
     (case f x of
        Inl e \<Rightarrow> Inl e
      | Inr y \<Rightarrow> (case mapM f xs of Inl e \<Rightarrow> Inl e | Inr ys \<Rightarrow> Inr (y # ys)))"

text \<open>
  The skeleton shared by both resamplers (lines 25-27 and 39-41):
  \<^verbatim>\<open>Z_out = np.empty((M_out, N_out))\<close>, then every cell of \<^verbatim>\<open>Z_out\<close> is assigned once,
  row by row.
\<close>

definition fill_grid :: "int \<Rightarrow> int \<Rightarrow> (nat \<Rightarrow> nat \<Rightarrow> error + cell) \<Rightarrow> error + grid" where
  "fill_grid M_out N_out f =
     (if M_out < 0 \<or> N_out < 0 then Inl NegativeDimensions
      else case mapM (\<lambda>i_out. mapM (f i_out) [0..<nat N_out]) [0..<nat M_out] of
             Inl e \<Rightarrow> Inl e
           | Inr rs \<Rightarrow> Inr \<lparr>nrows = nat M_out, ncols = nat N_out, rows = rs\<rparr>)"

section \<open>Nearest-neighbour resampling (\<^verbatim>\<open>thiessen_interpolation\<close>)\<close>

text \<open>Lines 28, 30 and 31 for one axis of length \<open>M\<close>: the source index of an output index.\<close>

definition nn_index :: "int \<Rightarrow> real \<Rightarrow> nat \<Rightarrow> int" where
  "nn_index M factor i_out =
     (let x = real i_out / factor; i_nn = py_round x
      in min (max i_nn 0) (M - 1))"

definition thiessen_cell :: "grid \<Rightarrow> real \<Rightarrow> nat \<Rightarrow> nat \<Rightarrow> error + cell" where
  "thiessen_cell Z_in factor i_out j_out =
     (if factor = 0 then Inl ZeroDivisionError
      else getitem Z_in (nn_index (int (nrows Z_in)) factor i_out)
                        (nn_index (int (ncols Z_in)) factor j_out))"

definition thiessen_interpolation :: "grid \<Rightarrow> real \<Rightarrow> error + grid" where
  "thiessen_interpolation Z_in factor =
     (let M = int (nrows Z_in); N = int (ncols Z_in);
          M_out = py_int (real_of_int M * factor); N_out = py_int (real_of_int N * factor)
      in fill_grid M_out N_out (thiessen_cell Z_in factor))"

section \<open>Bilinear resampling (\<^verbatim>\<open>bilinear_interpolation\<close>)\<close>

text \<open>Lines 42, 44 and 45 for one axis: the lower and the upper corner index.\<close>

definition lo_index :: "real \<Rightarrow> nat \<Rightarrow> int" where
  "lo_index factor i_out = \<lfloor>real i_out / factor\<rfloor>"

definition hi_index :: "int \<Rightarrow> real \<Rightarrow> nat \<Rightarrow> int" where
  "hi_index M factor i_out = min (lo_index factor i_out + 1) (M - 1)"

text \<open>Line 46: the fractional offset.\<close>

definition frac_offset :: "real \<Rightarrow> nat \<Rightarrow> real" where
  "frac_offset factor i_out = real i_out / factor - of_int (lo_index factor i_out)"

text \<open>Lines 49-54: the blend of the four corner samples.\<close>

definition blend :: "real \<Rightarrow> real \<Rightarrow> cell \<Rightarrow> cell \<Rightarrow> cell \<Rightarrow> cell \<Rightarrow> cell" where
  "blend a b s00 s10 s01 s11 =
     fadd (fadd (fadd (fmul (Fin ((1 - a) * (1 - b))) s00)
                      (fmul (Fin (a * (1 - b))) s10))
                (fmul (Fin ((1 - a) * b)) s01))
          (fmul (Fin (a * b)) s11)"

definition bilinear_cell :: "grid \<Rightarrow> real \<Rightarrow> nat \<Rightarrow> nat \<Rightarrow> error + cell" where
  "bilinear_cell Z_in factor i_out j_out =
     (if factor = 0 then Inl ZeroDivisionError
      else
        let M = int (nrows Z_in); N = int (ncols Z_in);
            i0 = lo_index factor i_out; j0 = lo_index factor j_out;
            i1 = hi_index M factor i_out; j1 = hi_index N factor j_out;
            a = frac_offset factor i_out; b = frac_offset factor j_out
        in case getitem Z_in i0 j0 of Inl e \<Rightarrow> Inl e | Inr s00 \<Rightarrow>
           (case getitem Z_in i1 j0 of Inl e \<Rightarrow> Inl e | Inr s10 \<Rightarrow>
           (case getitem Z_in i0 j1 of Inl e \<Rightarrow> Inl e | Inr s01 \<Rightarrow>
           (case getitem Z_in i1 j1 of Inl e \<Rightarrow> Inl e | Inr s11 \<Rightarrow>
              Inr (blend a b s00 s10 s01 s11)))))"

definition bilinear_interpolation :: "grid \<Rightarrow> real \<Rightarrow> error + grid" where
  "bilinear_interpolation Z_in factor =
     (let M = int (nrows Z_in); N = int (ncols Z_in);
          M_out = py_int (real_of_int M * factor); N_out = py_int (real_of_int N * factor)
      in fill_grid M_out N_out (bilinear_cell Z_in factor))"

text \<open>The value the blend gives an output cell, with the corners read in range.\<close>

definition bilinear_value :: "grid \<Rightarrow> real \<Rightarrow> nat \<Rightarrow> nat \<Rightarrow> cell" where
  "bilinear_value Z_in factor i j = 
     blend (frac_offset factor i) (frac_offset factor j)
            (cell_at Z_in (nat (lo_index factor i)) (nat (lo_index factor j)))
            (cell_at Z_in (nat (hi_index (int (nrows Z_in)) factor i)) (nat (lo_index factor j)))
            (cell_at Z_in (nat (lo_index factor i)) (nat (hi_index (int (ncols Z_in)) factor j)))
            (cell_at Z_in (nat (hi_index (int (nrows Z_in)) factor i))
                          (nat (hi_index (int (ncols Z_in)) factor j)))"

section \<open>Gap filling by inverse-distance weighting (\<^verbatim>\<open>idw_interpolation\<close>)\<close>

text \<open>The index pairs \<^verbatim>\<open>for i in range(M) for j in range(N)\<close>, in that order.\<close>

definition grid_cells :: "nat \<Rightarrow> nat \<Rightarrow> (nat \<times> nat) list" where
  "grid_cells M N = concat (map (\<lambda>i. map (\<lambda>j. (i, j)) [0..<N]) [0..<M])"

text \<open>Lines 59 and 60.\<close>

definition known_cells :: "grid \<Rightarrow> (nat \<times> nat) list" where
  "known_cells Z_in =
     filter (\<lambda>(i, j). \<not> isnan (cell_at Z_in i j)) (grid_cells (nrows Z_in) (ncols Z_in))"

definition known_values :: "grid \<Rightarrow> cell list" where
  "known_values Z_in = map (\<lambda>(i, j). cell_at Z_in i j) (known_cells Z_in)"

subsection \<open>The spatial index\<close>

text \<open>
  \<^verbatim>\<open>scipy.spatial.KDTree\<close> is a library class. It is modelled by what its
  documentation promises, as a linear scan over the indexed points:
  \<^item> the constructor wants a two-dimensional array of points, and raises ValueError on
    the empty list (whose array is one-dimensional);
  \<^item> \<^verbatim>\<open>query(x, k)\<close> returns the distances and the indices of the \<open>k\<close> nearest points, nearest
    first (ties are taken in index order here: scipy leaves their order open);
  \<^item> for \<^verbatim>\<open>k == 1\<close> the last dimension of the result is squeezed: for one query point the
    distance and the index are scalars, not arrays of length one;
  \<^item> \<^verbatim>\<open>k < 1\<close> raises ValueError.
  With \<open>k\<close> above the number of points scipy pads the result with infinite distances;
  the caller never asks for more than \<^verbatim>\<open>len(known)\<close>, and the model returns the points
  there are.
\<close>

type_synonym kdtree = "(nat \<times> nat) list"

definition KDTree :: "(nat \<times> nat) list \<Rightarrow> error + kdtree" where
  "KDTree pts = (if pts = [] then Inl KDTreeData else Inr pts)"

text \<open>A numpy result: a scalar or a one-dimensional array.\<close>

datatype 'a np = Scalar 'a | Array "'a list"

fun squeeze :: "'a list \<Rightarrow> 'a np" where
  "squeeze [x] = Scalar x"
| "squeeze xs = Array xs"

definition sq_dist :: "nat \<times> nat \<Rightarrow> nat \<times> nat \<Rightarrow> int" where
  "sq_dist p q = (int (fst p) - int (fst q))\<^sup>2 + (int (snd p) - int (snd q))\<^sup>2"

definition dist2 :: "nat \<times> nat \<Rightarrow> nat \<times> nat \<Rightarrow> real" where
  "dist2 p q = sqrt (real_of_int (sq_dist p q))"

text \<open>The indices of the \<open>k\<close> points nearest to \<open>q\<close>, nearest first.\<close>

definition nearest :: "kdtree \<Rightarrow> nat \<times> nat \<Rightarrow> nat \<Rightarrow> nat list" where
  "nearest tree q k = take k (sort_key (\<lambda>idx. sq_dist (tree ! idx) q) [0..<length tree])"

definition query :: "kdtree \<Rightarrow> nat \<times> nat \<Rightarrow> int \<Rightarrow> error + (real \<times> nat) np" where
  "query tree q k =
     (if k < 1 then Inl KDTreeK
      else
        let hits = map (\<lambda>idx. (dist2 (tree ! idx) q, idx)) (nearest tree q (nat k))
        in if k = 1 then Inr (squeeze hits) else Inr (Array hits))"

subsection \<open>The estimate of one cell (lines 66-69)\<close>

text \<open>\<^verbatim>\<open>np.dot(w, vs)\<close> on a list of pairs of a weight and a value.\<close>

fun dot :: "(real \<times> cell) list \<Rightarrow> cell" where
  "dot [] = Fin 0"
| "dot ((w, v) # wvs) = fadd (fmul (Fin w) v) (dot wvs)"

text \<open>
  The quotient of a cell by a real divisor. The divisor is \<^verbatim>\<open>w.sum()\<close>, which is
  positive (lemma \<open>weights_sum_pos\<close> below).
\<close>

fun fdiv :: "cell \<Rightarrow> real \<Rightarrow> cell" where
  "fdiv (Fin a) s = Fin (a / s)"
| "fdiv NaN s = NaN"

text \<open>Lines 67 and 68: the weight of a neighbour at distance \<open>d\<close>.\<close>

definition weight :: "real \<Rightarrow> real \<Rightarrow> real" where
  "weight pw d = 1 / (max d (1 / 10 ^ 12) powr pw)"

text \<open>
  The weighted average over the hits of a query. \<^verbatim>\<open>[values[idx] for idx in idxs]\<close>
  iterates over \<^verbatim>\<open>idxs\<close>, which raises TypeError when it is a scalar.
\<close>

definition weighted_average :: "cell list \<Rightarrow> real \<Rightarrow> (real \<times> nat) list \<Rightarrow> cell" where
  "weighted_average vals pw hits =
     (let w = map (\<lambda>(d, idx). weight pw d) hits;
          vs = map (\<lambda>(d, idx). vals ! idx) hits
      in fdiv (dot (zip w vs)) (sum_list w))"

definition idw_estimate :: "kdtree \<Rightarrow> cell list \<Rightarrow> int \<Rightarrow> real \<Rightarrow> nat \<times> nat \<Rightarrow> error + cell" where
  "idw_estimate tree vals k pw q =
     (case query tree q (min k (int (length tree))) of
        Inl e \<Rightarrow> Inl e
      | Inr (Scalar hit) \<Rightarrow> Inl NotIterable
      | Inr (Array hits) \<Rightarrow> Inr (weighted_average vals pw hits))"

subsection \<open>The loop over the cells (lines 63-69)\<close>

text \<open>
  \<^verbatim>\<open>Z_out\<close> is the array being rewritten: the test \<^verbatim>\<open>np.isnan(Z_out[i, j])\<close> reads it,
  the assignment writes it. The tree and the value list are fixed before the loop.
\<close>

fun idw_loop ::
  "kdtree \<Rightarrow> cell list \<Rightarrow> int \<Rightarrow> real \<Rightarrow> (nat \<times> nat) list \<Rightarrow> grid \<Rightarrow> error + grid" where
  "idw_loop tree vals k pw [] Z_out = Inr Z_out"
| "idw_loop tree vals k pw ((i, j) # ps) Z_out =
     (if isnan (cell_at Z_out i j)
      then (case idw_estimate tree vals k pw (i, j) of
              Inl e \<Rightarrow> Inl e
            | Inr v \<Rightarrow> idw_loop tree vals k pw ps (setitem Z_out i j v))
      else idw_loop tree vals k pw ps Z_out)"

definition idw_interpolation :: "grid \<Rightarrow> int \<Rightarrow> real \<Rightarrow> error + grid" where
  "idw_interpolation Z_in k pw =
     (let known = known_cells Z_in; vals = known_values Z_in
      in case KDTree known of
           Inl e \<Rightarrow> Inl e
         | Inr tree \<Rightarrow> idw_loop tree vals k pw (grid_cells (nrows Z_in) (ncols Z_in)) Z_in)"

section \<open>Grid assembly (\<^verbatim>\<open>shapefile_to_grid\<close>)\<close>

text \<open>
  Reading the file is the library's work: the function is modelled from the rows of the
  data frame on, each row a point \<open>(x, y)\<close> with the value of the field \<^verbatim>\<open>z_field\<close>, in the
  order \<^verbatim>\<open>iterrows\<close> gives them.
\<close>

type_synonym sample = "real \<times> real \<times> cell"

text \<open>\<^verbatim>\<open>np.sort(s.unique())\<close>.\<close>

definition sorted_unique :: "real list \<Rightarrow> real list" where
  "sorted_unique vs = sort (remdups vs)"

text \<open>\<^verbatim>\<open>{x: j for j, x in enumerate(xs)}\<close>: a later entry replaces an earlier one.\<close>

definition index_dict :: "real list \<Rightarrow> (real \<rightharpoonup> nat)" where
  "index_dict xs = fold (\<lambda>(j, x) m. m(x \<mapsto> j)) (enumerate 0 xs) Map.empty"

definition dict_get :: "(real \<rightharpoonup> nat) \<Rightarrow> real \<Rightarrow> error + nat" where
  "dict_get m key = (case m key of None \<Rightarrow> Inl KeyError | Some v \<Rightarrow> Inr v)"

definition np_full :: "nat \<Rightarrow> nat \<Rightarrow> cell \<Rightarrow> grid" where
  "np_full m n v = \<lparr>nrows = m, ncols = n, rows = replicate m (replicate n v)\<rparr>"

text \<open>Lines 16-19.\<close>

fun assign_loop :: "(real \<rightharpoonup> nat) \<Rightarrow> (real \<rightharpoonup> nat) \<Rightarrow> sample list \<Rightarrow> grid \<Rightarrow> error + grid" where
  "assign_loop x_to_j y_to_i [] Z = Inr Z"
| "assign_loop x_to_j y_to_i ((x, y, z) # rest) Z =
     (case dict_get y_to_i y of
        Inl e \<Rightarrow> Inl e
      | Inr i \<Rightarrow>
          (case dict_get x_to_j x of
             Inl e \<Rightarrow> Inl e
           | Inr j \<Rightarrow> assign_loop x_to_j y_to_i rest (setitem Z i j z)))"

definition shapefile_to_grid :: "sample list \<Rightarrow> error + (grid \<times> real list \<times> real list)" where
  "shapefile_to_grid gdf =
     (let xs = sorted_unique (map (\<lambda>(x, y, z). x) gdf);
          ys = sorted_unique (map (\<lambda>(x, y, z). y) gdf);
          nx = length xs; ny = length ys;
          Z = np_full ny nx NaN;
          x_to_j = index_dict xs;
          y_to_i = index_dict ys
      in case assign_loop x_to_j y_to_i gdf Z of
           Inl e \<Rightarrow> Inl e
         | Inr Z' \<Rightarrow> Inr (Z', xs, ys))"

section \<open>Notions the statements use\<close>

text \<open>
  The hits of the query for the cell \<open>q\<close>, as \<^verbatim>\<open>idw_interpolation\<close> asks for them: the
  \<open>min k (length tree)\<close> nearest points of the tree, each with its distance.
\<close>

definition neighbours :: "kdtree \<Rightarrow> int \<Rightarrow> nat \<times> nat \<Rightarrow> (real \<times> nat) list" where
  "neighbours tree k q =
     map (\<lambda>idx. (dist2 (tree ! idx) q, idx)) (nearest tree q (nat (min k (int (length tree)))))"

text \<open>
  The estimate of the cell \<open>q\<close>, computed from the known cells and values of the input
  grid alone.
\<close>

definition idw_value :: "grid \<Rightarrow> int \<Rightarrow> real \<Rightarrow> nat \<times> nat \<Rightarrow> cell" where
  "idw_value Z_in k pw q =
     weighted_average (known_values Z_in) pw (neighbours (known_cells Z_in) k q)"

text \<open>
  The grid in which every missing cell of \<open>Z\<close> at a position of \<open>S\<close> holds its estimate
  \<open>est\<close>, and every other cell is the cell of \<open>Z\<close>.
\<close>

definition filled :: "(nat \<times> nat \<Rightarrow> cell) \<Rightarrow> (nat \<times> nat) set \<Rightarrow> grid \<Rightarrow> grid" where
  "filled est S Z =
     \<lparr>nrows = nrows Z, ncols = ncols Z,
      rows = map (\<lambda>i. map (\<lambda>j. if isnan (cell_at Z i j) \<and> (i, j) \<in> S then est (i, j)
                                else cell_at Z i j) [0..<ncols Z]) [0..<nrows Z]\<rparr>"

text \<open>
  What the assembled grid is to hold at the position of the coordinates \<open>(x, y)\<close>: the
  value of the last sample at \<open>(x, y)\<close>, and nothing when there is none.
\<close>

definition last_sample :: "sample list \<Rightarrow> real \<Rightarrow> real \<Rightarrow> cell option" where
  "last_sample gdf x y =
     (case filter (\<lambda>(x', y', z). x' = x \<and> y' = y) gdf of
        [] \<Rightarrow> None
      | s # ss \<Rightarrow> Some (snd (snd (last (s # ss)))))"

section \<open>Example inputs\<close>

text \<open>The 3 by 3 grid with the values 1 to 9.\<close>

definition grid3 :: grid where
  "grid3 = \<lparr>nrows = 3, ncols = 3,
            rows = [[Fin 1, Fin 2, Fin 3], [Fin 4, Fin 5, Fin 6], [Fin 7, Fin 8, Fin 9]]\<rparr>"

text \<open>\<^verbatim>\<open>[[1, NaN]]\<close>: one known cell, one missing.\<close>

definition row_gap :: grid where
  "row_gap = \<lparr>nrows = 1, ncols = 2, rows = [[Fin 1, NaN]]\<rparr>"

text \<open>\<^verbatim>\<open>[[1, NaN], [3, 4]]\<close>.\<close>

definition gap2 :: grid where
  "gap2 = \<lparr>nrows = 2, ncols = 2, rows = [[Fin 1, NaN], [Fin 3, Fin 4]]\<rparr>"



text \<open>Four samples on three positions: the position \<open>(20, 5)\<close> twice, \<open>(20, 7)\<close> never.\<close>

definition four_samples :: "sample list" where
  "four_samples = [(20, 5, Fin 1), (10, 5, Fin 2), (20, 5, Fin 3), (10, 7, Fin 4)]"

section \<open>Properties of the resamplers\<close>

lemma mapM_Inr:
  "(\<And>x. x \<in> set xs \<Longrightarrow> f x = Inr (g x)) \<Longrightarrow> mapM f xs = Inr (map g xs)"
  by (induction xs) auto

lemma fill_grid_Inr:
  assumes "0 \<le> M_out" "0 \<le> N_out"
    and "\<And>i j. i < nat M_out \<Longrightarrow> j < nat N_out \<Longrightarrow> f i j = Inr (g i j)"
  shows "fill_grid M_out N_out f =
           Inr \<lparr>nrows = nat M_out, ncols = nat N_out,
                rows = map (\<lambda>i. map (g i) [0..<nat N_out]) [0..<nat M_out]\<rparr>"
proof -
  have inner: "mapM (f i) [0..<nat N_out] = Inr (map (g i) [0..<nat N_out])"
    if "i < nat M_out" for i
    by (rule mapM_Inr[where g = "g i"]) (simp add: that assms(3))
  have "mapM (\<lambda>i. mapM (f i) [0..<nat N_out]) [0..<nat M_out] =
          Inr (map (\<lambda>i. map (g i) [0..<nat N_out]) [0..<nat M_out])"
    by (rule mapM_Inr[where g = "\<lambda>i. map (g i) [0..<nat N_out]"]) (simp add: inner)
  with assms(1,2) show ?thesis by (simp add: fill_grid_def)
qed

lemma getitem_in_range:
  "0 \<le> i \<Longrightarrow> i < int (nrows Z) \<Longrightarrow> 0 \<le> j \<Longrightarrow> j < int (ncols Z) \<Longrightarrow>
   getitem Z i j = Inr (cell_at Z (nat i) (nat j))"
  by (simp add: getitem_def)

lemma out_index_lt:
  fixes factor :: real
  assumes "0 < factor" "i_out < nat \<lfloor>real M * factor\<rfloor>"
  shows "real i_out / factor < real M"
proof -
  have "int i_out + 1 \<le> \<lfloor>real M * factor\<rfloor>" using assms(2) by linarith
  then have "real i_out + 1 \<le> real M * factor" by linarith
  then have "real i_out < real M * factor" by linarith
  then show ?thesis using assms(1) by (simp add: pos_divide_less_eq)
qed

lemma lo_index_bounds:
  assumes "0 < factor" "i_out < nat \<lfloor>real M * factor\<rfloor>"
  shows "0 \<le> lo_index factor i_out \<and> lo_index factor i_out \<le> int M - 1"
proof -
  have "real i_out / factor < real M" using assms by (rule out_index_lt)
  then have "\<lfloor>real i_out / factor\<rfloor> < int M" by linarith
  moreover have "0 \<le> real i_out / factor" using assms(1) by simp
  then have "0 \<le> \<lfloor>real i_out / factor\<rfloor>" by linarith
  ultimately show ?thesis by (simp add: lo_index_def)
qed

lemma hi_index_bounds:
  assumes "0 < factor" "i_out < nat \<lfloor>real M * factor\<rfloor>"
  shows "0 \<le> hi_index (int M) factor i_out \<and> hi_index (int M) factor i_out \<le> int M - 1"
  using lo_index_bounds[OF assms] by (simp add: hi_index_def)

lemma nn_index_bounds:
  assumes "0 < factor" "i_out < nat \<lfloor>real M * factor\<rfloor>"
  shows "0 \<le> nn_index (int M) factor i_out \<and> nn_index (int M) factor i_out \<le> int M - 1"
proof -
  have "1 \<le> int M" using lo_index_bounds[OF assms] by linarith
  then show ?thesis by (simp add: nn_index_def Let_def)
qed

lemma py_int_nonneg: "0 \<le> x \<Longrightarrow> py_int x = \<lfloor>x\<rfloor>"
  by (simp add: py_int_def)

lemma thiessen_result:
  assumes "0 < factor"
  shows "thiessen_interpolation Z_in factor =
     Inr \<lparr>nrows = nat \<lfloor>real (nrows Z_in) * factor\<rfloor>,
          ncols = nat \<lfloor>real (ncols Z_in) * factor\<rfloor>,
          rows = map (\<lambda>i. map (\<lambda>j. cell_at Z_in (nat (nn_index (int (nrows Z_in)) factor i))
                                               (nat (nn_index (int (ncols Z_in)) factor j)))
                            [0..<nat \<lfloor>real (ncols Z_in) * factor\<rfloor>])
                     [0..<nat \<lfloor>real (nrows Z_in) * factor\<rfloor>]\<rparr>"
proof -
  let ?M = "nrows Z_in" and ?N = "ncols Z_in"
  have M0: "0 \<le> real ?M * factor" and N0: "0 \<le> real ?N * factor" using assms by simp_all
  have cell: "thiessen_cell Z_in factor i j =
      Inr (cell_at Z_in (nat (nn_index (int ?M) factor i)) (nat (nn_index (int ?N) factor j)))"
    if "i < nat \<lfloor>real ?M * factor\<rfloor>" "j < nat \<lfloor>real ?N * factor\<rfloor>" for i j
    using nn_index_bounds[OF assms that(1)] nn_index_bounds[OF assms that(2)] assms
    by (simp add: thiessen_cell_def getitem_in_range)
  show ?thesis
    unfolding thiessen_interpolation_def Let_def
    using M0 N0 cell by (simp add: py_int_nonneg fill_grid_Inr)
qed

lemma bilinear_cell_Inr:
  assumes "0 < factor"
    and "i < nat \<lfloor>real (nrows Z_in) * factor\<rfloor>" "j < nat \<lfloor>real (ncols Z_in) * factor\<rfloor>"
  shows "bilinear_cell Z_in factor i j =
      Inr (blend (frac_offset factor i) (frac_offset factor j)
            (cell_at Z_in (nat (lo_index factor i)) (nat (lo_index factor j)))
            (cell_at Z_in (nat (hi_index (int (nrows Z_in)) factor i)) (nat (lo_index factor j)))
            (cell_at Z_in (nat (lo_index factor i)) (nat (hi_index (int (ncols Z_in)) factor j)))
            (cell_at Z_in (nat (hi_index (int (nrows Z_in)) factor i))
                          (nat (hi_index (int (ncols Z_in)) factor j))))"
  using lo_index_bounds[OF assms(1,2)] lo_index_bounds[OF assms(1,3)]
    hi_index_bounds[OF assms(1,2)] hi_index_bounds[OF assms(1,3)] assms(1)
  by (simp add: bilinear_cell_def Let_def getitem_in_range)

lemma bilinear_result:
  assumes "0 < factor"
  shows "bilinear_interpolation Z_in factor =
     Inr \<lparr>nrows = nat \<lfloor>real (nrows Z_in) * factor\<rfloor>,
          ncols = nat \<lfloor>real (ncols Z_in) * factor\<rfloor>,
          rows = map (\<lambda>i. map (\<lambda>j. bilinear_value Z_in factor i j)
                            [0..<nat \<lfloor>real (ncols Z_in) * factor\<rfloor>])
                     [0..<nat \<lfloor>real (nrows Z_in) * factor\<rfloor>]\<rparr>"
proof -
  let ?M = "nrows Z_in" and ?N = "ncols Z_in"
  have M0: "0 \<le> real ?M * factor" and N0: "0 \<le> real ?N * factor" using assms by simp_all
  show ?thesis
    unfolding bilinear_interpolation_def Let_def bilinear_value_def
    using M0 N0 bilinear_cell_Inr[OF assms] by (simp add: py_int_nonneg fill_grid_Inr)
qed

lemma wf_grid_table:
  "wf_grid \<lparr>nrows = m, ncols = n, rows = map (\<lambda>i. map (g i) [0..<n]) [0..<m]\<rparr>"
  by (auto simp: wf_grid_def)

lemma cell_at_table:
  "i < m \<Longrightarrow> j < n \<Longrightarrow>
   cell_at \<lparr>nrows = m, ncols = n, rows = map (\<lambda>i. map (g i) [0..<n]) [0..<m]\<rparr> i j = g i j"
  by (simp add: cell_at_def)

lemma blend_NaN:
  "isnan s00 \<or> isnan s10 \<or> isnan s01 \<or> isnan s11 \<Longrightarrow> blend a b s00 s10 s01 s11 = NaN"
  by (cases s00; cases s10; cases s01; cases s11) (auto simp: blend_def)

section \<open>Properties of arrays\<close>

lemma wf_grid_nth: "wf_grid Z \<longleftrightarrow> length (rows Z) = nrows Z \<and> (\<forall>i < nrows Z. length (rows Z ! i) = ncols Z)"
  by (auto simp: wf_grid_def all_set_conv_all_nth)

lemma nrows_setitem [simp]: "nrows (setitem Z i j v) = nrows Z"
  and ncols_setitem [simp]: "ncols (setitem Z i j v) = ncols Z"
  by (simp_all add: setitem_def)

lemma wf_grid_setitem: "wf_grid Z \<Longrightarrow> wf_grid (setitem Z i j v)"
proof -
  assume wf: "wf_grid Z"
  have "length ((rows Z)[i := (rows Z ! i)[j := v]] ! a) = ncols Z" if "a < nrows Z" for a
    using wf that by (cases "a = i") (simp_all add: wf_grid_nth)
  with wf show ?thesis by (simp add: wf_grid_nth setitem_def)
qed

lemma cell_at_setitem:
  "wf_grid Z \<Longrightarrow> i < nrows Z \<Longrightarrow> j < ncols Z \<Longrightarrow>
   cell_at (setitem Z i j v) i' j' = (if i' = i \<and> j' = j then v else cell_at Z i' j')"
  by (auto simp: wf_grid_nth setitem_def cell_at_def nth_list_update)

lemma grid_eqI:
  fixes Z Z' :: grid
  assumes "wf_grid Z" "wf_grid Z'" "nrows Z = nrows Z'" "ncols Z = ncols Z'"
    and "\<And>i j. i < nrows Z \<Longrightarrow> j < ncols Z \<Longrightarrow> cell_at Z i j = cell_at Z' i j"
  shows "Z = Z'"
proof -
  have "rows Z = rows Z'"
  proof (rule nth_equalityI)
    show "length (rows Z) = length (rows Z')" using assms by (simp add: wf_grid_nth)
  next
    fix i assume "i < length (rows Z)"
    then have i: "i < nrows Z" using assms(1) by (simp add: wf_grid_nth)
    show "rows Z ! i = rows Z' ! i"
    proof (rule nth_equalityI)
      show "length (rows Z ! i) = length (rows Z' ! i)" using assms i by (simp add: wf_grid_nth)
    next
      fix j assume "j < length (rows Z ! i)"
      then have "j < ncols Z" using assms(1) i by (simp add: wf_grid_nth)
      then show "rows Z ! i ! j = rows Z' ! i ! j" using assms(5)[OF i] by (simp add: cell_at_def)
    qed
  qed
  then show ?thesis using assms(3,4) by simp
qed

lemma set_grid_cells: "set (grid_cells M N) = {(i, j). i < M \<and> j < N}"
  by (auto simp: grid_cells_def)

section \<open>Properties of the estimate\<close>

lemma length_nearest: "length (nearest tree q m) = min m (length tree)"
  by (simp add: nearest_def)

lemma set_nearest: "set (nearest tree q m) \<subseteq> {..<length tree}"
proof -
  have "set (nearest tree q m) \<subseteq> set (sort_key (\<lambda>idx. sq_dist (tree ! idx) q) [0..<length tree])"
    unfolding nearest_def by (rule set_take_subset)
  then show ?thesis by auto
qed

text \<open>The hits of a query are in ascending order of distance, and no other point is nearer.\<close>

lemma nearest_sorted:
  "sorted (map (\<lambda>idx. sq_dist (tree ! idx) q) (nearest tree q m))"
proof -
  have "sorted (map (\<lambda>idx. sq_dist (tree ! idx) q)
          (sort_key (\<lambda>idx. sq_dist (tree ! idx) q) [0..<length tree]))"
    by (rule sorted_sort_key)
  then show ?thesis
    unfolding nearest_def by (simp add: take_map[symmetric] sorted_wrt_take)
qed

lemma nearest_closest:
  assumes "a \<in> set (nearest tree q m)" "b < length tree" "b \<notin> set (nearest tree q m)"
  shows "sq_dist (tree ! a) q \<le> sq_dist (tree ! b) q"
proof -
  let ?f = "\<lambda>idx. sq_dist (tree ! idx) q"
  let ?s = "sort_key ?f [0..<length tree]"
  have "sorted (map ?f (take m ?s) @ map ?f (drop m ?s))"
    by (simp only: map_append[symmetric] append_take_drop_id sorted_sort_key)
  then have s: "\<forall>x\<in>set (map ?f (take m ?s)). \<forall>y\<in>set (map ?f (drop m ?s)). x \<le> y"
    unfolding sorted_append by blast
  have "b \<in> set ?s" using assms(2) by simp
  then have "b \<in> set (take m ?s) \<union> set (drop m ?s)"
    by (simp only: set_append[symmetric] append_take_drop_id)
  with assms(3) have b: "b \<in> set (drop m ?s)" by (simp add: nearest_def)
  from assms(1) have a: "a \<in> set (take m ?s)" by (simp add: nearest_def)
  from a b have "?f a \<in> set (map ?f (take m ?s))" "?f b \<in> set (map ?f (drop m ?s))"
    by (simp_all only: set_map image_eqI)
  with s show ?thesis by blast
qed

lemma distinct_nearest: "distinct (nearest tree q m)"
  by (simp add: nearest_def distinct_take)

lemma squeeze_Array: "2 \<le> length xs \<Longrightarrow> squeeze xs = Array xs"
  by (cases xs rule: squeeze.cases) auto

lemma squeeze_Scalar: "length xs = 1 \<Longrightarrow> \<exists>x. squeeze xs = Scalar x"
  by (cases xs rule: squeeze.cases) auto

lemma idw_estimate_cases:
  "idw_estimate tree vals k pw q =
     (if min k (int (length tree)) < 1 then Inl KDTreeK
      else if min k (int (length tree)) = 1 then Inl NotIterable
      else Inr (weighted_average vals pw (neighbours tree k q)))"
proof -
  define kk where "kk = min k (int (length tree))"
  define hits where "hits = map (\<lambda>idx. (dist2 (tree ! idx) q, idx)) (nearest tree q (nat kk))"
  have q: "query tree q kk =
      (if kk < 1 then Inl KDTreeK else if kk = 1 then Inr (squeeze hits) else Inr (Array hits))"
    by (simp add: query_def hits_def Let_def)
  have sq: "\<exists>x. squeeze hits = Scalar x" if "kk = 1"
  proof -
    have "1 \<le> length tree" using that by (simp add: kk_def min_def split: if_splits)
    then have "length hits = 1" using that by (simp add: hits_def length_nearest)
    then show ?thesis by (rule squeeze_Scalar)
  qed
  have "idw_estimate tree vals k pw q =
     (if kk < 1 then Inl KDTreeK
      else if kk = 1 then Inl NotIterable
      else Inr (weighted_average vals pw hits))"
    unfolding idw_estimate_def kk_def[symmetric] q using sq by auto
  then show ?thesis by (simp add: kk_def hits_def neighbours_def)
qed

lemma weight_pos: "0 < weight pw d"
proof -
  have "(0::real) < max d (1 / 10 ^ 12)" by (simp add: less_max_iff_disj)
  then show ?thesis by (simp add: weight_def)
qed

lemma weights_sum_pos:
  "hits \<noteq> [] \<Longrightarrow> 0 < sum_list (map (\<lambda>(d, idx). weight pw d) hits)"
proof (induction hits)
  case Nil
  then show ?case by simp
next
  case (Cons h hits)
  obtain d idx where h: "h = (d, idx)" by (cases h)
  have "0 \<le> sum_list (map (\<lambda>(d, idx). weight pw d) hits)"
    by (rule sum_list_nonneg) (auto simp: weight_pos less_imp_le)
  then show ?case using weight_pos[of pw d] by (simp add: h)
qed

lemma dot_Fin:
  "\<forall>v \<in> set vs. \<not> isnan v \<Longrightarrow> length ws = length vs \<Longrightarrow> \<exists>r. dot (zip ws vs) = Fin r"
proof (induction vs arbitrary: ws)
  case Nil
  then show ?case by simp
next
  case (Cons v vs)
  then obtain w ws' where ws: "ws = w # ws'" by (cases ws) auto
  from Cons.prems obtain a where v: "v = Fin a" by (cases v) auto
  from Cons.IH[of ws'] Cons.prems ws obtain r where "dot (zip ws' vs) = Fin r" by auto
  then show ?case by (simp add: ws v)
qed

lemma weighted_average_Fin:
  assumes "\<forall>(d, idx) \<in> set hits. idx < length vals" "\<forall>v \<in> set vals. \<not> isnan v"
  shows "\<not> isnan (weighted_average vals pw hits)"
proof -
  have "\<forall>v \<in> set (map (\<lambda>(d, idx). vals ! idx) hits). \<not> isnan v"
    using assms by (auto simp: split_def)
  from dot_Fin[OF this, of "map (\<lambda>(d, idx). weight pw d) hits"]
  obtain r where "dot (zip (map (\<lambda>(d, idx). weight pw d) hits) (map (\<lambda>(d, idx). vals ! idx) hits)) = Fin r"
    by auto
  then show ?thesis by (simp add: weighted_average_def Let_def)
qed

lemma known_values_not_nan: "\<forall>v \<in> set (known_values Z). \<not> isnan v"
  by (auto simp: known_values_def known_cells_def)

lemma length_known_values: "length (known_values Z) = length (known_cells Z)"
  by (simp add: known_values_def)

lemma estimate_not_nan:
  "\<not> isnan (weighted_average (known_values Z) pw (neighbours (known_cells Z) k q))"
proof (rule weighted_average_Fin)
  show "\<forall>(d, idx) \<in> set (neighbours (known_cells Z) k q). idx < length (known_values Z)"
    using set_nearest[of "known_cells Z" q] by (auto simp: neighbours_def length_known_values)
  show "\<forall>v \<in> set (known_values Z). \<not> isnan v" by (rule known_values_not_nan)
qed

section \<open>Properties of the gap filler\<close>

lemma idw_loop_no_nan:
  "\<forall>(i, j) \<in> set ps. \<not> isnan (cell_at Z i j) \<Longrightarrow> idw_loop tree vals k pw ps Z = Inr Z"
  by (induction ps) auto

lemma idw_loop_error:
  assumes "\<And>q. idw_estimate tree vals k pw q = Inl e"
  shows "idw_loop tree vals k pw ps Z =
           (if \<exists>(i, j) \<in> set ps. isnan (cell_at Z i j) then Inl e else Inr Z)"
  by (induction ps) (auto simp: assms)

lemma filled_empty: "wf_grid Z \<Longrightarrow> filled est {} Z = Z"
  by (rule grid_eqI) (simp_all add: filled_def wf_grid_table cell_at_table)

lemma wf_filled: "wf_grid (filled est S Z)"
  by (simp add: filled_def wf_grid_table)

lemma cell_at_filled:
  "i < nrows Z \<Longrightarrow> j < ncols Z \<Longrightarrow>
   cell_at (filled est S Z) i j =
     (if isnan (cell_at Z i j) \<and> (i, j) \<in> S then est (i, j) else cell_at Z i j)"
  by (simp add: filled_def cell_at_table)

lemma filled_setitem:
  assumes "wf_grid Z" "i < nrows Z" "j < ncols Z" "isnan (cell_at Z i j)" "\<not> isnan (est (i, j))"
  shows "filled est S (setitem Z i j (est (i, j))) = filled est (insert (i, j) S) Z"
proof (rule grid_eqI)
  let ?Z1 = "setitem Z i j (est (i, j))"
  show "wf_grid (filled est S ?Z1)" "wf_grid (filled est (insert (i, j) S) Z)"
    by (rule wf_filled)+
  show "nrows (filled est S ?Z1) = nrows (filled est (insert (i, j) S) Z)"
    "ncols (filled est S ?Z1) = ncols (filled est (insert (i, j) S) Z)"
    by (simp_all add: filled_def)
  fix a b
  assume "a < nrows (filled est S ?Z1)" "b < ncols (filled est S ?Z1)"
  then have ab: "a < nrows Z" "b < ncols Z" by (simp_all add: filled_def)
  then have "cell_at (filled est S ?Z1) a b =
      (if isnan (cell_at ?Z1 a b) \<and> (a, b) \<in> S then est (a, b) else cell_at ?Z1 a b)"
    by (simp add: cell_at_filled)
  also have "\<dots> = (if isnan (cell_at Z a b) \<and> (a, b) \<in> insert (i, j) S then est (a, b)
                      else cell_at Z a b)"
    using assms by (auto simp: cell_at_setitem)
  also have "\<dots> = cell_at (filled est (insert (i, j) S) Z) a b"
    using ab by (simp add: cell_at_filled)
  finally show "cell_at (filled est S ?Z1) a b = cell_at (filled est (insert (i, j) S) Z) a b" .
qed

lemma filled_insert_known:
  assumes "\<not> isnan (cell_at Z i j)"
  shows "filled est (insert (i, j) S) Z = filled est S Z"
  using assms by (auto simp: filled_def)

lemma idw_loop_filled:
  assumes est: "\<And>q. idw_estimate tree vals k pw q = Inr (est q)"
    and nn: "\<And>q. \<not> isnan (est q)"
  shows "wf_grid Z \<Longrightarrow> \<forall>(i, j) \<in> set ps. i < nrows Z \<and> j < ncols Z \<Longrightarrow>
         idw_loop tree vals k pw ps Z = Inr (filled est (set ps) Z)"
proof (induction ps arbitrary: Z)
  case Nil
  then show ?case by (simp add: filled_empty)
next
  case (Cons p ps)
  obtain i j where p: "p = (i, j)" by (cases p)
  from Cons.prems p have ij: "i < nrows Z" "j < ncols Z" by auto
  show ?case
  proof (cases "isnan (cell_at Z i j)")
    case True
    let ?Z1 = "setitem Z i j (est (i, j))"
    have "idw_loop tree vals k pw ps ?Z1 = Inr (filled est (set ps) ?Z1)"
      using Cons.prems by (intro Cons.IH) (auto simp: wf_grid_setitem)
    also have "filled est (set ps) ?Z1 = filled est (insert (i, j) (set ps)) Z"
      using Cons.prems(1) ij True nn by (rule filled_setitem)
    finally show ?thesis using True by (simp add: p est)
  next
    case False
    have "idw_loop tree vals k pw ps Z = Inr (filled est (set ps) Z)"
      using Cons.prems by (intro Cons.IH) auto
    then show ?thesis using False by (simp add: p filled_insert_known)
  qed
qed

lemma idw_loop_cases:
  assumes "wf_grid Z" and "\<forall>(i, j) \<in> set ps. i < nrows Z \<and> j < ncols Z"
  shows "idw_loop (known_cells Z) (known_values Z) k pw ps Z =
     (if \<forall>(i, j) \<in> set ps. \<not> isnan (cell_at Z i j) then Inr Z
      else if min k (int (length (known_cells Z))) < 1 then Inl KDTreeK
      else if min k (int (length (known_cells Z))) = 1 then Inl NotIterable
      else Inr (filled (idw_value Z k pw) (set ps) Z))"
proof -
  let ?tree = "known_cells Z" and ?vals = "known_values Z"
  let ?kk = "min k (int (length ?tree))"
  consider "?kk < 1" | "?kk = 1" | "\<not> ?kk < 1" "?kk \<noteq> 1" by blast
  then show ?thesis
  proof cases
    case 1
    then have "\<And>q. idw_estimate ?tree ?vals k pw q = Inl KDTreeK"
      by (simp add: idw_estimate_cases)
    from idw_loop_error[of ?tree ?vals k pw KDTreeK ps Z, OF this] 1 show ?thesis
      by auto
  next
    case 2
    then have "\<And>q. idw_estimate ?tree ?vals k pw q = Inl NotIterable"
      by (simp add: idw_estimate_cases)
    from idw_loop_error[of ?tree ?vals k pw NotIterable ps Z, OF this] 2 show ?thesis
      by auto
  next
    case 3
    then have e: "\<And>q. idw_estimate ?tree ?vals k pw q = Inr (idw_value Z k pw q)"
      by (simp add: idw_estimate_cases idw_value_def)
    have n: "\<And>q. \<not> isnan (idw_value Z k pw q)"
      unfolding idw_value_def by (rule estimate_not_nan)
    have f: "idw_loop ?tree ?vals k pw ps Z = Inr (filled (idw_value Z k pw) (set ps) Z)"
      using e n assms by (rule idw_loop_filled)
    show ?thesis
    proof (cases "\<forall>(i, j) \<in> set ps. \<not> isnan (cell_at Z i j)")
      case True
      then show ?thesis by (simp add: idw_loop_no_nan)
    next
      case False
      show ?thesis unfolding f by (simp only: False 3 if_False)
    qed
  qed
qed

lemma idw_interpolation_cases:
  assumes "wf_grid Z"
  shows "idw_interpolation Z k pw =
     (if known_cells Z = [] then Inl KDTreeData
      else if \<forall>(i, j) \<in> set (grid_cells (nrows Z) (ncols Z)). \<not> isnan (cell_at Z i j) then Inr Z
      else if min k (int (length (known_cells Z))) < 1 then Inl KDTreeK
      else if min k (int (length (known_cells Z))) = 1 then Inl NotIterable
      else Inr (filled (idw_value Z k pw) (set (grid_cells (nrows Z) (ncols Z))) Z))"
proof -
  have "\<forall>(i, j) \<in> set (grid_cells (nrows Z) (ncols Z)). i < nrows Z \<and> j < ncols Z"
    by (simp add: set_grid_cells)
  from idw_loop_cases[OF assms this, of k pw] show ?thesis
    unfolding idw_interpolation_def Let_def KDTree_def by simp
qed

section \<open>The example grids evaluated\<close>

lemma wf_gap2: "wf_grid gap2" by (simp add: wf_grid_def gap2_def)

lemma cells22: "grid_cells 2 2 = [(0,0),(0,1),(1,0),(1,1)]"
  by (simp add: grid_cells_def numeral_2_eq_2)

lemma known_gap2: "known_cells gap2 = [(0,0),(1,0),(1,1)]"
  by (simp add: known_cells_def gap2_def cell_at_def cells22)

lemma values_gap2: "known_values gap2 = [Fin 1, Fin 3, Fin 4]"
  unfolding known_values_def known_gap2 by (simp add: gap2_def cell_at_def)

lemma nearest_gap2: "nearest (known_cells gap2) (0, 1) 3 = [0, 2, 1]"
  by (simp add: nearest_def known_gap2 sq_dist_def numeral_3_eq_3 power2_eq_square)

lemma dists_gap2:
  "dist2 (0, 0) (0, 1) = 1" "dist2 (1, 0) (0, 1) = sqrt 2" "dist2 (1, 1) (0, 1) = 1"
  by (simp_all add: dist2_def sq_dist_def power2_eq_square)

lemma weights_gap2: "weight 2 1 = 1" "weight 2 (sqrt 2) = 1 / 2"
proof -
  show "weight 2 1 = 1" by (simp add: weight_def)
  have "(1::real) / 10 ^ 12 \<le> 1" by simp
  also have "(1::real) \<le> sqrt 2" by simp
  finally have "max (sqrt 2) (1 / 10 ^ 12) = sqrt 2" by (simp add: max_def)
  then show "weight 2 (sqrt 2) = 1 / 2" by (simp add: weight_def)
qed

lemma neighbours_gap2:
  "neighbours (known_cells gap2) 3 (0, 1) = [(1, 0), (1, 2), (sqrt 2, 1)]"
  unfolding neighbours_def known_gap2
  using nearest_gap2[unfolded known_gap2] dists_gap2 by simp

lemma value_gap2: "idw_value gap2 3 2 (0, 1) = Fin (13 / 5)"
  unfolding idw_value_def neighbours_gap2 values_gap2 weighted_average_def
  by (simp add: weights_gap2)

lemma result_gap2:
  "idw_interpolation gap2 3 2 =
     Inr \<lparr>nrows = 2, ncols = 2, rows = [[Fin 1, Fin (13 / 5)], [Fin 3, Fin 4]]\<rparr>"
proof -
  have n: "isnan (cell_at gap2 0 1)" "\<not> isnan (cell_at gap2 0 0)" "\<not> isnan (cell_at gap2 1 0)"
    "\<not> isnan (cell_at gap2 1 1)"
    by (simp_all add: gap2_def cell_at_def)
  have s: "nrows gap2 = 2" "ncols gap2 = 2" by (simp_all add: gap2_def)
  have u: "[0..<2] = [0, 1]" by (simp add: numeral_2_eq_2)
  have f: "filled (idw_value gap2 3 2) (set (grid_cells 2 2)) gap2 =
      \<lparr>nrows = 2, ncols = 2, rows = [[Fin 1, Fin (13 / 5)], [Fin 3, Fin 4]]\<rparr>"
    unfolding filled_def s u cells22 using n value_gap2 by (simp add: gap2_def cell_at_def)
  show ?thesis
    unfolding idw_interpolation_cases[OF wf_gap2] s f using n by (simp add: known_gap2 cells22)
qed


lemma wf_row_gap: "wf_grid row_gap" by (simp add: wf_grid_def row_gap_def)

lemma cells12: "grid_cells (Suc 0) 2 = [(0, 0), (0, 1)]"
  by (simp add: grid_cells_def numeral_2_eq_2)

lemma known_row_gap: "known_cells row_gap = [(0, 0)]"
  by (simp add: known_cells_def row_gap_def cell_at_def cells12)






section \<open>Non-positive parameters\<close>









section \<open>Properties of the grid assembly\<close>

lemma sorted_unique_props:
  "sorted_wrt (<) (sorted_unique vs)" "set (sorted_unique vs) = set vs" "distinct (sorted_unique vs)"
  by (simp_all add: sorted_unique_def strict_sorted_iff)

lemma fold_index_other:
  "x \<notin> set xs \<Longrightarrow> fold (\<lambda>(j, x) m. m(x \<mapsto> j)) (enumerate n xs) m x = m x"
  by (induction xs arbitrary: n m) auto

lemma fold_index_nth:
  "distinct xs \<Longrightarrow> j < length xs \<Longrightarrow>
   fold (\<lambda>(j, x) m. m(x \<mapsto> j)) (enumerate n xs) m (xs ! j) = Some (n + j)"
proof (induction xs arbitrary: n m j)
  case Nil
  then show ?case by simp
next
  case (Cons a xs)
  show ?case
  proof (cases j)
    case 0
    have na: "a \<notin> set xs" using Cons.prems by simp
    have "fold (\<lambda>(j, x) m. m(x \<mapsto> j)) (enumerate n (a # xs)) m ((a # xs) ! 0) =
          fold (\<lambda>(j, x) m. m(x \<mapsto> j)) (enumerate (Suc n) xs) (m(a \<mapsto> n)) a"
      by (simp only: enumerate_simps fold_simps nth_Cons_0 prod.case)
    also have "\<dots> = (m(a \<mapsto> n)) a" by (rule fold_index_other[OF na])
    also have "\<dots> = Some (n + 0)" by simp
    finally show ?thesis unfolding 0 .
  next
    case (Suc j')
    then show ?thesis using Cons.prems Cons.IH[of j' "Suc n" "m(a \<mapsto> n)"] by simp
  qed
qed

lemma dict_get_index:
  "distinct xs \<Longrightarrow> j < length xs \<Longrightarrow> dict_get (index_dict xs) (xs ! j) = Inr j"
  by (simp add: dict_get_def index_dict_def fold_index_nth)

lemma dict_get_member:
  assumes "distinct xs" "x \<in> set xs"
  shows "\<exists>j<length xs. xs ! j = x \<and> dict_get (index_dict xs) x = Inr j"
proof -
  from assms(2) obtain j where j: "j < length xs" "xs ! j = x" by (auto simp: in_set_conv_nth)
  with dict_get_index[OF assms(1) j(1)] show ?thesis by auto
qed

text \<open>The value a cell holds after the samples \<open>rs\<close> were written over the value \<open>c\<close>.\<close>

lemma last_sample_fold:
  "fold (\<lambda>(x', y', z) c. if x' = x \<and> y' = y then z else c) rs c =
     (case last_sample rs x y of None \<Rightarrow> c | Some z \<Rightarrow> z)"
proof (induction rs arbitrary: c)
  case Nil
  then show ?case by (simp add: last_sample_def)
next
  case (Cons s rs)
  obtain x' y' z where s: "s = (x', y', z)" by (cases s)
  show ?case
    unfolding s using Cons.IH[of "if x' = x \<and> y' = y then z else c"]
    by (auto simp: last_sample_def split: list.splits)
qed

lemma assign_loop_result:
  assumes "distinct xs" "distinct ys"
  shows "wf_grid Z \<Longrightarrow> nrows Z = length ys \<Longrightarrow> ncols Z = length xs \<Longrightarrow>
         \<forall>(x, y, z) \<in> set rs. x \<in> set xs \<and> y \<in> set ys \<Longrightarrow>
         \<exists>Z'. assign_loop (index_dict xs) (index_dict ys) rs Z = Inr Z' \<and>
              wf_grid Z' \<and> nrows Z' = length ys \<and> ncols Z' = length xs \<and>
              (\<forall>i<length ys. \<forall>j<length xs.
                 cell_at Z' i j =
                   fold (\<lambda>(x', y', z) c. if x' = xs ! j \<and> y' = ys ! i then z else c) rs
                     (cell_at Z i j))"
proof (induction rs arbitrary: Z)
  case Nil
  then show ?case by simp
next
  case (Cons s rs)
  obtain x y z where s: "s = (x, y, z)" by (cases s)
  from Cons.prems(4) s have mem: "x \<in> set xs" "y \<in> set ys" by auto
  from dict_get_member[OF assms(1) mem(1)] obtain j0 where
    j0: "j0 < length xs" "xs ! j0 = x" "dict_get (index_dict xs) x = Inr j0" by auto
  from dict_get_member[OF assms(2) mem(2)] obtain i0 where
    i0: "i0 < length ys" "ys ! i0 = y" "dict_get (index_dict ys) y = Inr i0" by auto
  let ?Z1 = "setitem Z i0 j0 z"
  have "\<exists>Z'. assign_loop (index_dict xs) (index_dict ys) rs ?Z1 = Inr Z' \<and>
              wf_grid Z' \<and> nrows Z' = length ys \<and> ncols Z' = length xs \<and>
              (\<forall>i<length ys. \<forall>j<length xs.
                 cell_at Z' i j =
                   fold (\<lambda>(x', y', z) c. if x' = xs ! j \<and> y' = ys ! i then z else c) rs
                     (cell_at ?Z1 i j))"
    using Cons.prems by (intro Cons.IH) (auto simp: wf_grid_setitem)
  then obtain Z' where Z': "assign_loop (index_dict xs) (index_dict ys) rs ?Z1 = Inr Z'"
    "wf_grid Z'" "nrows Z' = length ys" "ncols Z' = length xs"
    "\<forall>i<length ys. \<forall>j<length xs.
                 cell_at Z' i j =
                   fold (\<lambda>(x', y', z) c. if x' = xs ! j \<and> y' = ys ! i then z else c) rs
                     (cell_at ?Z1 i j)"
    by blast
  have c1: "cell_at ?Z1 i j = (if x = xs ! j \<and> y = ys ! i then z else cell_at Z i j)"
    if "i < length ys" "j < length xs" for i j
  proof -
    have "cell_at ?Z1 i j = (if i = i0 \<and> j = j0 then z else cell_at Z i j)"
      using Cons.prems(1-3) i0(1) j0(1) by (simp add: cell_at_setitem)
    moreover have "i = i0 \<longleftrightarrow> y = ys ! i"
      using assms(2) that(1) i0(1,2) by (auto simp: nth_eq_iff_index_eq)
    moreover have "j = j0 \<longleftrightarrow> x = xs ! j"
      using assms(1) that(2) j0(1,2) by (auto simp: nth_eq_iff_index_eq)
    ultimately show ?thesis by auto
  qed
  have "assign_loop (index_dict xs) (index_dict ys) (s # rs) Z = Inr Z'"
    by (simp add: s i0(3) j0(3) Z'(1))
  moreover have "\<forall>i<length ys. \<forall>j<length xs.
      cell_at Z' i j =
        fold (\<lambda>(x', y', z) c. if x' = xs ! j \<and> y' = ys ! i then z else c) (s # rs)
          (cell_at Z i j)"
    using Z'(5) c1 by (simp add: s)
  ultimately show ?case using Z'(2-4) by blast
qed

lemma wf_np_full: "wf_grid (np_full m n v)"
  by (simp add: wf_grid_def np_full_def)

lemma cell_at_np_full: "i < m \<Longrightarrow> j < n \<Longrightarrow> cell_at (np_full m n v) i j = v"
  by (simp add: cell_at_def np_full_def)

lemma assembled_four:
  "shapefile_to_grid four_samples =
     Inr (\<lparr>nrows = 2, ncols = 2, rows = [[Fin 2, Fin 3], [Fin 4, NaN]]\<rparr>, [10, 20], [5, 7])"
  by (simp add: shapefile_to_grid_def four_samples_def sorted_unique_def index_dict_def
      dict_get_def np_full_def setitem_def Let_def numeral_2_eq_2)

section \<open>Main results\<close>



text \<open>
  C7 (boundary safety). For a factor \<open>f > 0\<close> and every output cell, the source indices
  both resamplers read lie in \<open>[0, M - 1] \<times> [0, N - 1]\<close>: the clamped rounded indices of
  \<^verbatim>\<open>thiessen_interpolation\<close>, and the corners \<open>i0\<close>, \<open>i1\<close>, \<open>j0\<close>, \<open>j1\<close> of
  \<^verbatim>\<open>bilinear_interpolation\<close>; no read raises IndexError. The 3 by 3 grid with the values
  1 to 9, upscaled by 2 with nearest neighbours, gives a 6 by 6 grid whose cell \<open>(5, 5)\<close>
  is the input cell \<open>(2, 2)\<close>, 9.
\<close>

theorem boundary_safety:
  assumes "0 < factor"
    and "i_out < nat \<lfloor>real (nrows Z_in) * factor\<rfloor>"
    and "j_out < nat \<lfloor>real (ncols Z_in) * factor\<rfloor>"
  shows "(let M = int (nrows Z_in); N = int (ncols Z_in);
              i_nn = nn_index M factor i_out; j_nn = nn_index N factor j_out;
              i0 = lo_index factor i_out; j0 = lo_index factor j_out;
              i1 = hi_index M factor i_out; j1 = hi_index N factor j_out
          in 0 \<le> i_nn \<and> i_nn \<le> M - 1 \<and> 0 \<le> j_nn \<and> j_nn \<le> N - 1 \<and>
             0 \<le> i0 \<and> i0 \<le> M - 1 \<and> 0 \<le> j0 \<and> j0 \<le> N - 1 \<and>
             0 \<le> i1 \<and> i1 \<le> M - 1 \<and> 0 \<le> j1 \<and> j1 \<le> N - 1 \<and>
             thiessen_cell Z_in factor i_out j_out = Inr (cell_at Z_in (nat i_nn) (nat j_nn)) \<and>
             bilinear_cell Z_in factor i_out j_out \<noteq> Inl IndexError) \<and>
         (\<exists>Z. thiessen_interpolation grid3 2 = Inr Z \<and> nrows Z = 6 \<and> ncols Z = 6 \<and>
              cell_at Z 5 5 = cell_at grid3 2 2 \<and> cell_at grid3 2 2 = Fin 9)"
proof -
  have ex: "\<exists>Z. thiessen_interpolation grid3 2 = Inr Z \<and> nrows Z = 6 \<and> ncols Z = 6 \<and>
              cell_at Z 5 5 = cell_at grid3 2 2 \<and> cell_at grid3 2 2 = Fin 9"
    by (simp add: thiessen_result grid3_def cell_at_def nn_index_def py_round_def Let_def)
  have th: "thiessen_cell Z_in factor i_out j_out =
      Inr (cell_at Z_in (nat (nn_index (int (nrows Z_in)) factor i_out))
                        (nat (nn_index (int (ncols Z_in)) factor j_out)))"
    using nn_index_bounds[OF assms(1,2)] nn_index_bounds[OF assms(1,3)] assms(1)
    by (simp add: thiessen_cell_def getitem_in_range)
  show ?thesis
    unfolding Let_def
    using nn_index_bounds[OF assms(1,2)] nn_index_bounds[OF assms(1,3)]
      lo_index_bounds[OF assms(1,2)] lo_index_bounds[OF assms(1,3)]
      hi_index_bounds[OF assms(1,2)] hi_index_bounds[OF assms(1,3)]
      th ex bilinear_cell_Inr[OF assms]
    by simp
qed

theorem boundary_safety_witness:
  "(0::real) < 2 \<and> (5::nat) < nat \<lfloor>real (nrows grid3) * 2\<rfloor> \<and> (5::nat) < nat \<lfloor>real (ncols grid3) * 2\<rfloor> \<and>
   nn_index 3 2 5 = 2 \<and> lo_index 2 5 = 2 \<and> hi_index 3 2 5 = 2 \<and>
   thiessen_cell grid3 2 5 5 = Inr (Fin 9) \<and>
   bilinear_cell grid3 2 5 5 \<noteq> Inl IndexError"
proof -
  have h: "(0::real) < 2" "(5::nat) < nat \<lfloor>real (nrows grid3) * 2\<rfloor>"
    "(5::nat) < nat \<lfloor>real (ncols grid3) * 2\<rfloor>"
    by (simp_all add: grid3_def)
  have v: "nn_index 3 2 5 = 2" "lo_index 2 5 = 2" "hi_index 3 2 5 = 2"
    by (simp_all add: nn_index_def py_round_def lo_index_def hi_index_def Let_def)
  have g: "int (nrows grid3) = 3" "int (ncols grid3) = 3" "cell_at grid3 2 2 = Fin 9"
    by (simp_all add: grid3_def cell_at_def)
  show ?thesis
    using boundary_safety[OF h] h v g by (simp add: Let_def)
qed

text \<open>
  C8 (propagation of the missing sentinel). In \<^verbatim>\<open>bilinear_interpolation\<close>, when one of
  the four corner cells read for an output cell is NaN, the output cell is NaN, whatever
  the weight of that corner, zero included.
\<close>

theorem nan_propagation:
  assumes "0 < factor"
    and "i_out < nat \<lfloor>real (nrows Z_in) * factor\<rfloor>"
    and "j_out < nat \<lfloor>real (ncols Z_in) * factor\<rfloor>"
    and "getitem Z_in (lo_index factor i_out) (lo_index factor j_out) = Inr NaN \<or>
         getitem Z_in (hi_index (int (nrows Z_in)) factor i_out) (lo_index factor j_out) = Inr NaN \<or>
         getitem Z_in (lo_index factor i_out) (hi_index (int (ncols Z_in)) factor j_out) = Inr NaN \<or>
         getitem Z_in (hi_index (int (nrows Z_in)) factor i_out)
                      (hi_index (int (ncols Z_in)) factor j_out) = Inr NaN"
  shows "\<exists>Z. bilinear_interpolation Z_in factor = Inr Z \<and> cell_at Z i_out j_out = NaN"
proof -
  have "bilinear_value Z_in factor i_out j_out = NaN"
    unfolding bilinear_value_def
    using assms(4) lo_index_bounds[OF assms(1,2)] lo_index_bounds[OF assms(1,3)]
      hi_index_bounds[OF assms(1,2)] hi_index_bounds[OF assms(1,3)]
    by (intro blend_NaN) (auto simp: getitem_in_range)
  then show ?thesis
    using assms(2,3) by (simp add: bilinear_result[OF assms(1)] cell_at_table)
qed

theorem nan_propagation_witness:
  "(0::real) < 1 \<and> frac_offset 1 0 = 0 \<and> (1 - frac_offset 1 0) * frac_offset 1 0 = 0 \<and>
   getitem row_gap (lo_index 1 0) (lo_index 1 0) = Inr (Fin 1) \<and>
   getitem row_gap (lo_index 1 0) (hi_index (int (ncols row_gap)) 1 0) = Inr NaN \<and>
   (\<exists>Z. bilinear_interpolation row_gap 1 = Inr Z \<and> cell_at Z 0 0 = NaN)"
proof -
  have h: "(0::real) < 1" "(0::nat) < nat \<lfloor>real (nrows row_gap) * 1\<rfloor>"
    "(0::nat) < nat \<lfloor>real (ncols row_gap) * 1\<rfloor>"
    by (simp_all add: row_gap_def)
  have c: "getitem row_gap (lo_index 1 0) (hi_index (int (ncols row_gap)) 1 0) = Inr NaN"
    "getitem row_gap (lo_index 1 0) (lo_index 1 0) = Inr (Fin 1)"
    by (simp_all add: row_gap_def getitem_def cell_at_def lo_index_def hi_index_def Let_def)
  have f: "frac_offset 1 0 = 0" by (simp add: frac_offset_def lo_index_def)
  show ?thesis
    using nan_propagation[OF h] c f by simp
qed

text \<open>
  C1 (scenario). On the grid \<^verbatim>\<open>[[1, NaN], [3, 4]]\<close> with \<open>k = 3\<close> and power 2, gap filling
  replaces the one missing cell \<open>(0, 1)\<close> by the average of all three known cells weighted
  by the inverse squared distance: the distances are 1 to \<open>(0, 0)\<close>, \<open>\<surd>2\<close> to \<open>(1, 0)\<close> and
  1 to \<open>(1, 1)\<close>, the weights 1, 1/2 and 1, the value \<open>(1 \<cdot> 1 + 3 \<cdot> 0.5 + 4 \<cdot> 1) / 2.5 = 2.6\<close>
  in exact arithmetic; every other cell is unchanged.
\<close>

theorem idw_scenario:
  "known_cells gap2 = [(0, 0), (1, 0), (1, 1)] \<and>
   known_values gap2 = [Fin 1, Fin 3, Fin 4] \<and>
   neighbours (known_cells gap2) 3 (0, 1) = [(1, 0), (1, 2), (sqrt 2, 1)] \<and>
   dist2 (0, 0) (0, 1) = 1 \<and> dist2 (1, 0) (0, 1) = sqrt 2 \<and> dist2 (1, 1) (0, 1) = 1 \<and>
   weight 2 1 = 1 \<and> weight 2 (sqrt 2) = 1 / 2 \<and>
   idw_value gap2 3 2 (0, 1) = Fin ((1 * 1 + 3 * (1 / 2) + 4 * 1) / (5 / 2)) \<and>
   idw_interpolation gap2 3 2 =
     Inr \<lparr>nrows = 2, ncols = 2, rows = [[Fin 1, Fin (26 / 10)], [Fin 3, Fin 4]]\<rparr>"
  using known_gap2 values_gap2 neighbours_gap2 dists_gap2 weights_gap2 value_gap2 result_gap2
  by simp

text \<open>
  C3 (gap filling succeeds on every grid with a known cell). The code does not: when
  \<^verbatim>\<open>min(k, len(known))\<close> is 1, the query returns a scalar index, and the list
  comprehension over it raises TypeError at the first missing cell. This happens on the
  grid \<^verbatim>\<open>[[1, NaN]]\<close> (one known cell) with the default \<open>k = 4\<close>, and on the grid
  \<^verbatim>\<open>[[1, NaN], [3, 4]]\<close> with \<open>k = 1\<close>.
\<close>

theorem idw_scalar_query:
  "idw_interpolation row_gap 4 2 = Inl NotIterable \<and>
   idw_interpolation gap2 1 2 = Inl NotIterable"
proof -
  have r: "isnan (cell_at row_gap 0 1)" by (simp add: row_gap_def cell_at_def)
  have g: "isnan (cell_at gap2 0 1)" by (simp add: gap2_def cell_at_def)
  have s: "nrows row_gap = 1" "ncols row_gap = 2" "nrows gap2 = 2" "ncols gap2 = 2"
    by (simp_all add: row_gap_def gap2_def)
  have "idw_interpolation row_gap 4 2 = Inl NotIterable"
    unfolding idw_interpolation_cases[OF wf_row_gap] s using r
    by (simp add: known_row_gap cells12)
  moreover have "idw_interpolation gap2 1 2 = Inl NotIterable"
    unfolding idw_interpolation_cases[OF wf_gap2] s using g
    by (simp add: known_gap2 cells22)
  ultimately show ?thesis by simp
qed











text \<open>
  C9 (grid assembly). For every list of samples \<open>(x, y, value)\<close>, \<^verbatim>\<open>shapefile_to_grid\<close>
  returns axes \<open>xs\<close> and \<open>ys\<close> that hold exactly the \<open>x\<close> and the \<open>y\<close> values of the samples, in
  strictly ascending order, and a grid of shape \<open>(length ys, length xs)\<close> whose cell
  \<open>(i, j)\<close> holds the value of the last sample at \<open>(xs ! j, ys ! i)\<close>, and the missing
  sentinel when no sample is there.
\<close>

theorem grid_assembly:
  "\<exists>Z xs ys. shapefile_to_grid gdf = Inr (Z, xs, ys) \<and>
     sorted_wrt (<) xs \<and> set xs = (\<lambda>(x, y, z). x) ` set gdf \<and>
     sorted_wrt (<) ys \<and> set ys = (\<lambda>(x, y, z). y) ` set gdf \<and>
     wf_grid Z \<and> nrows Z = length ys \<and> ncols Z = length xs \<and>
     (\<forall>i<length ys. \<forall>j<length xs.
        cell_at Z i j = (case last_sample gdf (xs ! j) (ys ! i) of None \<Rightarrow> NaN | Some z \<Rightarrow> z))"
proof -
  define xs where "xs = sorted_unique (map (\<lambda>(x, y, z). x) gdf)"
  define ys where "ys = sorted_unique (map (\<lambda>(x, y, z). y) gdf)"
  let ?Z0 = "np_full (length ys) (length xs) NaN"
  have sx: "sorted_wrt (<) xs" "distinct xs" "set xs = (\<lambda>(x, y, z). x) ` set gdf"
    and sy: "sorted_wrt (<) ys" "distinct ys" "set ys = (\<lambda>(x, y, z). y) ` set gdf"
    by (simp_all add: xs_def ys_def sorted_unique_props)
  have mem: "\<forall>(x, y, z) \<in> set gdf. x \<in> set xs \<and> y \<in> set ys"
    unfolding sx(3) sy(3) by force
  have "\<exists>Z'. assign_loop (index_dict xs) (index_dict ys) gdf ?Z0 = Inr Z' \<and>
              wf_grid Z' \<and> nrows Z' = length ys \<and> ncols Z' = length xs \<and>
              (\<forall>i<length ys. \<forall>j<length xs.
                 cell_at Z' i j =
                   fold (\<lambda>(x', y', z) c. if x' = xs ! j \<and> y' = ys ! i then z else c) gdf
                     (cell_at ?Z0 i j))"
    using sx(2) sy(2) wf_np_full _ _ mem
    by (rule assign_loop_result) (simp_all add: np_full_def)
  then obtain Z where Z: "assign_loop (index_dict xs) (index_dict ys) gdf ?Z0 = Inr Z"
    "wf_grid Z" "nrows Z = length ys" "ncols Z = length xs"
    "\<forall>i<length ys. \<forall>j<length xs.
                 cell_at Z i j =
                   fold (\<lambda>(x', y', z) c. if x' = xs ! j \<and> y' = ys ! i then z else c) gdf
                     (cell_at ?Z0 i j)"
    by blast
  have "shapefile_to_grid gdf = Inr (Z, xs, ys)"
    using Z(1) by (simp add: shapefile_to_grid_def Let_def xs_def ys_def)
  moreover have "\<forall>i<length ys. \<forall>j<length xs.
        cell_at Z i j = (case last_sample gdf (xs ! j) (ys ! i) of None \<Rightarrow> NaN | Some z \<Rightarrow> z)"
    using Z(5) by (simp add: last_sample_fold cell_at_np_full)
  ultimately show ?thesis using sx(1,3) sy(1,3) Z(2-4) by blast
qed

theorem grid_assembly_witness:
  "shapefile_to_grid four_samples =
     Inr (\<lparr>nrows = 2, ncols = 2, rows = [[Fin 2, Fin 3], [Fin 4, NaN]]\<rparr>, [10, 20], [5, 7]) \<and>
   last_sample four_samples 20 5 = Some (Fin 3) \<and>
   last_sample four_samples 20 7 = None \<and>
   cell_at \<lparr>nrows = 2, ncols = 2, rows = [[Fin 2, Fin 3], [Fin 4, NaN]]\<rparr> 0 1 = Fin 3 \<and>
   cell_at \<lparr>nrows = 2, ncols = 2, rows = [[Fin 2, Fin 3], [Fin 4, NaN]]\<rparr> 1 1 = NaN"
proof -
  let ?R = "\<lparr>nrows = 2, ncols = 2, rows = [[Fin 2, Fin 3], [Fin 4, NaN]]\<rparr>"
  obtain Z xs ys where all:
    "shapefile_to_grid four_samples = Inr (Z, xs, ys) \<and>
     sorted_wrt (<) xs \<and> set xs = (\<lambda>(x, y, z). x) ` set four_samples \<and>
     sorted_wrt (<) ys \<and> set ys = (\<lambda>(x, y, z). y) ` set four_samples \<and>
     wf_grid Z \<and> nrows Z = length ys \<and> ncols Z = length xs \<and>
     (\<forall>i<length ys. \<forall>j<length xs.
        cell_at Z i j =
          (case last_sample four_samples (xs ! j) (ys ! i) of None \<Rightarrow> NaN | Some z \<Rightarrow> z))"
    using grid_assembly[of four_samples] by (elim exE) (erule that)
  note r = all[THEN conjunct1]
  note c = all[THEN conjunct2, THEN conjunct2, THEN conjunct2, THEN conjunct2, THEN conjunct2,
      THEN conjunct2, THEN conjunct2, THEN conjunct2]
  have "Inr (Z, xs, ys) =
     (Inr (?R, [10, 20], [5, 7]) :: error + grid \<times> real list \<times> real list)"
    using r assembled_four by (rule trans[OF sym])
  then have e: "Z = ?R" "xs = [10, 20]" "ys = [5, 7]" by (simp_all only: sum.inject prod.inject)
  have l: "last_sample four_samples 20 5 = Some (Fin 3)" "last_sample four_samples 20 7 = None"
    by (simp_all add: last_sample_def four_samples_def)
  have i: "(0::nat) < length [5, 7::real]" "(1::nat) < length [5, 7::real]"
    "(1::nat) < length [10, 20::real]" by simp_all
  have n: "[10, 20::real] ! 1 = 20" "[5, 7::real] ! 0 = 5" "[5, 7::real] ! 1 = 7" by simp_all
  have "cell_at ?R 0 1 = Fin 3"
    using c[unfolded e, rule_format, OF i(1) i(3)] unfolding n l by simp
  moreover have "cell_at ?R 1 1 = NaN"
    using c[unfolded e, rule_format, OF i(2) i(3)] unfolding n l by simp
  ultimately show ?thesis using l assembled_four by simp
qed

end
